theory Spec2Isabelle
  imports Complex_Main
begin

section \<open>Python strings\<close>

text \<open>
  A Python \<open>str\<close> is a sequence of code points. It is modelled as a \<open>string\<close>, each
  \<open>char\<close> standing for the code point of the same number, so the texts covered are
  those over U+0000..U+00FF. \<open>length\<close> then counts what \<open>len\<close> counts.
\<close>

definition is_space :: "char \<Rightarrow> bool" where
  \<comment> \<open>\<open>str.isspace\<close> on one character, which is also the class \<open>\s\<close> of \<open>re\<close>:
      TAB..CR, FS..US, SPACE, NEL, NBSP.\<close>
  "is_space c =
     (let n = (of_char c :: nat)
      in (9 \<le> n \<and> n \<le> 13) \<or> (28 \<le> n \<and> n \<le> 32) \<or> n = 133 \<or> n = 160)"

definition is_word :: "char \<Rightarrow> bool" where
  \<comment> \<open>The class \<open>\w\<close> of \<open>re\<close> on a \<open>str\<close> pattern: alphanumeric or underscore.\<close>
  "is_word c =
     (let n = (of_char c :: nat)
      in (48 \<le> n \<and> n \<le> 57) \<or> (65 \<le> n \<and> n \<le> 90) \<or> n = 95 \<or> (97 \<le> n \<and> n \<le> 122)
         \<or> n = 170 \<or> n = 178 \<or> n = 179 \<or> n = 181 \<or> n = 185 \<or> n = 186
         \<or> (188 \<le> n \<and> n \<le> 190) \<or> (192 \<le> n \<and> n \<le> 214)
         \<or> (216 \<le> n \<and> n \<le> 246) \<or> (248 \<le> n \<and> n \<le> 255))"

text \<open>\<open>text.split()\<close>: the maximal runs of non-whitespace characters, in order.\<close>

function str_split :: "string \<Rightarrow> string list" where
  "str_split s =
     (case dropWhile is_space s of
        [] \<Rightarrow> []
      | c # cs \<Rightarrow> (c # takeWhile (\<lambda>x. \<not> is_space x) cs)
                 # str_split (dropWhile (\<lambda>x. \<not> is_space x) cs))"
  by pat_completeness auto
termination
proof (relation "measure length")
  show "wf (measure length)" by simp
next
  fix s :: string and c cs
  assume eq: "dropWhile is_space s = c # cs"
  have "length (dropWhile (\<lambda>x. \<not> is_space x) cs) \<le> length cs"
    by (rule length_dropWhile_le)
  moreover have "length (c # cs) \<le> length s"
    using length_dropWhile_le [of is_space s] by (simp add: eq)
  ultimately show "(dropWhile (\<lambda>x. \<not> is_space x) cs, s) \<in> measure length"
    by simp
qed

declare str_split.simps [simp del]

text \<open>\<open>sep.join(xs)\<close>.\<close>

fun str_join :: "string \<Rightarrow> string list \<Rightarrow> string" where
  "str_join sep [] = []"
| "str_join sep [x] = x"
| "str_join sep (x # y # ys) = x @ sep @ str_join sep (y # ys)"

text \<open>\<open>text.strip()\<close>: whitespace removed at both ends.\<close>

definition str_strip :: "string \<Rightarrow> string" where
  "str_strip s = rev (dropWhile is_space (rev (dropWhile is_space s)))"

section \<open>summarizer.py: chunking\<close>

text \<open>
  The loop of \<open>_split_text_into_chunks\<close>, with its two variables \<open>chunks\<close> and
  \<open>current_chunk\<close> passed along; \<open>current_chunk[:-1]\<close> is \<open>butlast\<close>.
\<close>

fun chunk_loop :: "int \<Rightarrow> string list \<Rightarrow> string list \<Rightarrow> string list
                     \<Rightarrow> string list \<times> string list" where
  "chunk_loop max_length [] chunks current_chunk = (chunks, current_chunk)"
| "chunk_loop max_length (word # words) chunks current_chunk =
     (let appended = current_chunk @ [word]
      in if int (length (str_join '' '' appended)) > max_length
         then chunk_loop max_length words (chunks @ [str_join '' '' (butlast appended)]) [word]
         else chunk_loop max_length words chunks appended)"

definition split_text_into_chunks :: "string \<Rightarrow> int \<Rightarrow> string list" where
  "split_text_into_chunks text max_length =
     (case chunk_loop max_length (str_split text) [] [] of
        (chunks, current_chunk) \<Rightarrow>
          if current_chunk \<noteq> [] then chunks @ [str_join '' '' current_chunk] else chunks)"

section \<open>summarizer.py: preprocessing\<close>

text \<open>
  \<open>re.sub(r'\s+', ' ', text)\<close>: scanning from the left, each maximal run of whitespace
  is one match and is replaced by one space.
\<close>

function collapse_whitespace :: "string \<Rightarrow> string" where
  "collapse_whitespace [] = []"
| "collapse_whitespace (c # cs) =
     (if is_space c then CHR '' '' # collapse_whitespace (dropWhile is_space cs)
      else c # collapse_whitespace cs)"
  by pat_completeness auto
termination
proof (relation "measure length")
  show "wf (measure length)" by simp
next
  fix c :: char and cs :: string
  show "(dropWhile is_space cs, c # cs) \<in> measure length"
    using length_dropWhile_le [of is_space cs] by simp
next
  fix c :: char and cs :: string
  show "(cs, c # cs) \<in> measure length" by simp
qed

definition is_kept :: "char \<Rightarrow> bool" where
  \<comment> \<open>The characters that the class \<open>[^\w\s\.\,\;\:\!\?]\<close> does not match.\<close>
  "is_kept c = (is_word c \<or> is_space c \<or> c \<in> set ''.,;:!?'')"

definition remove_special :: "string \<Rightarrow> string" where
  \<comment> \<open>\<open>re.sub(r'[^\w\s\.\,\;\:\!\?]', '', text)\<close>\<close>
  "remove_special s = filter is_kept s"

definition newline :: char where
  "newline = CHR 0x0A"

text \<open>\<open>text.split(sep)\<close> for a one-character separator: empty pieces are kept.\<close>

fun str_split_on :: "char \<Rightarrow> string \<Rightarrow> string list" where
  "str_split_on sep [] = [[]]"
| "str_split_on sep (c # cs) =
     (if c = sep then [] # str_split_on sep cs
      else (case str_split_on sep cs of
              [] \<Rightarrow> [[c]]
            | piece # pieces \<Rightarrow> (c # piece) # pieces))"

definition preprocess_text :: "string \<Rightarrow> string" where
  "preprocess_text text0 =
     (let text1 = collapse_whitespace text0;
          text2 = remove_special text1;
          lines = str_split_on newline text2;
          cleaned_lines = filter (\<lambda>line. length (str_split line) > 3) lines
      in str_strip (str_join [newline] cleaned_lines))"

section \<open>summarizer.py: dispatch and result\<close>

text \<open>
  The exceptions that the code raises itself (\<open>AttributeError\<close> is what looking up a
  method that the class does not have raises), and those coming out of a library.
\<close>

datatype exn =
    FileNotFoundError
  | ValueError
  | ZeroDivisionError
  | AttributeError
  | LibraryError string

text \<open>
  The dictionary returned by \<open>generate_summary\<close>. The ratio is the exact quotient of
  the two counts; Python rounds it to a float.
\<close>

record summary_result =
  summary :: string
  original_length :: nat
  summary_length :: nat
  compression_ratio :: rat
  method_used :: string

text \<open>
  \<open>extractive_summarization\<close>. The parser and the TextRank summarizer are library
  code: \<open>textrank text sentence_count\<close> stands for the sentences they select, or the
  exception they raise, which the function turns into the empty string.
\<close>

definition extractive_summarization ::
  "(string \<Rightarrow> int \<Rightarrow> exn + string list) \<Rightarrow> string \<Rightarrow> int \<Rightarrow> string" where
  "extractive_summarization textrank text0 sentence_count =
     (case textrank text0 sentence_count of
        Inl e \<Rightarrow> []
      | Inr sentences \<Rightarrow> str_join '' '' sentences)"

text \<open>
  \<open>generate_summary\<close>. What it calls as \<open>self.abstractive_summarization\<close> is the
  parameter \<open>abstractive\<close>, which returns a summary or raises, so that the dispatch is
  stated for whatever stands behind that name. The default sentence count of the
  extractive method is 5.
\<close>

definition generate_summary ::
  "(string \<Rightarrow> int \<Rightarrow> exn + string list) \<Rightarrow> (string \<Rightarrow> exn + string)
     \<Rightarrow> string \<Rightarrow> string \<Rightarrow> exn + summary_result" where
  "generate_summary textrank abstractive text0 method =
     (let preprocessed_text = preprocess_text text0;
          outcome =
            (if method = ''extractive''
             then Inr (extractive_summarization textrank preprocessed_text 5)
             else if method = ''abstractive''
             then abstractive preprocessed_text
             else if method = ''hybrid''
             then abstractive (extractive_summarization textrank preprocessed_text 10)
             else Inl ValueError)
      in case outcome of
           Inl e \<Rightarrow> Inl e
         | Inr s \<Rightarrow>
             if length (str_split text0) = 0 then Inl ZeroDivisionError
             else Inr \<lparr> summary = s,
                        original_length = length (str_split text0),
                        summary_length = length (str_split s),
                        compression_ratio =
                          of_nat (length (str_split s)) / of_nat (length (str_split text0)),
                        method_used = method \<rparr>)"

text \<open>
  What stands behind that name in the source files: nothing. The class
  \<open>DocumentSummarizer\<close> defines \<open>preprocess_text\<close>, \<open>extractive_summarization\<close>,
  \<open>_split_text_into_chunks\<close> and \<open>generate_summary\<close>, and no method
  \<open>abstractive_summarization\<close>, so evaluating \<open>self.abstractive_summarization\<close> raises
  \<open>AttributeError\<close> before any argument is looked at.
\<close>

definition abstractive_summarization :: "string \<Rightarrow> exn + string" where
  "abstractive_summarization text0 = Inl AttributeError"

section \<open>text_extractor.py\<close>

text \<open>
  What the libraries report about a file is input to the extractor: the size from
  \<open>stat\<close>, what \<open>pdfplumber\<close> finds (the result of \<open>extract_text\<close> for each page,
  \<open>None\<close> included, and the metadata dictionary), the page texts of \<open>PyPDF2\<close>, and the
  document of \<open>python-docx\<close>. Each library may raise instead.
\<close>

record plumber_pdf =
  plumber_pages :: "string option list"
  plumber_metadata :: "string \<rightharpoonup> string"

record docx_document =
  paragraphs :: "string list"
  core_title :: "string option"
  core_author :: "string option"
  core_subject :: "string option"
  sections :: nat

record document_file =
  st_size :: nat
  pdfplumber_open :: "exn + plumber_pdf"
  pypdf2_pages :: "exn + string list"
  docx_open :: "exn + docx_document"

type_synonym filesystem = "string \<rightharpoonup> document_file"

record metadata =
  pages :: nat
  title :: string
  author :: string
  subject :: string
  file_size :: nat

record extraction =
  extracted_text :: string
  extracted_metadata :: metadata
  word_count :: nat
  char_count :: nat

definition dict_get :: "(string \<rightharpoonup> string) \<Rightarrow> string \<Rightarrow> string \<Rightarrow> string" where
  \<comment> \<open>\<open>d.get(key, default)\<close>\<close>
  "dict_get d key dflt = (case d key of None \<Rightarrow> dflt | Some v \<Rightarrow> v)"

definition or_default :: "string option \<Rightarrow> string \<Rightarrow> string" where
  \<comment> \<open>\<open>value or default\<close>: \<open>None\<close> and the empty string are false.\<close>
  "or_default v dflt =
     (case v of None \<Rightarrow> dflt | Some s \<Rightarrow> if s = [] then dflt else s)"

definition extraction_of :: "string \<Rightarrow> metadata \<Rightarrow> extraction" where
  \<comment> \<open>The dictionary that both extractors build from the variable \<open>text\<close>.\<close>
  "extraction_of text0 md =
     \<lparr> extracted_text = str_strip text0,
       extracted_metadata = md,
       word_count = length (str_split text0),
       char_count = length text0 \<rparr>"

definition plumber_text :: "string option list \<Rightarrow> string" where
  \<comment> \<open>The first loop: a page whose text is \<open>None\<close> or empty adds nothing.\<close>
  "plumber_text ps =
     foldl (\<lambda>acc page_text.
              case page_text of
                None \<Rightarrow> acc
              | Some t \<Rightarrow> if t \<noteq> [] then acc @ t @ [newline] else acc) [] ps"

definition extract_from_pdf :: "document_file \<Rightarrow> exn + extraction" where
  "extract_from_pdf f =
     (case pdfplumber_open f of
        Inl e \<Rightarrow> Inl e
      | Inr pdf \<Rightarrow>
          (let md = \<lparr> pages = length (plumber_pages pdf),
                      title = dict_get (plumber_metadata pdf) ''Title'' ''Unknown'',
                      author = dict_get (plumber_metadata pdf) ''Author'' ''Unknown'',
                      subject = dict_get (plumber_metadata pdf) ''Subject'' [],
                      file_size = st_size f \<rparr>;
               text1 = plumber_text (plumber_pages pdf)
           in if str_strip text1 = []
              then (case pypdf2_pages f of
                      Inl e \<Rightarrow> Inl e
                    | Inr ps \<Rightarrow>
                        Inr (extraction_of (foldl (\<lambda>acc t. acc @ t @ [newline]) text1 ps) md))
              else Inr (extraction_of text1 md)))"

definition extract_from_docx :: "document_file \<Rightarrow> exn + extraction" where
  "extract_from_docx f =
     (case docx_open f of
        Inl e \<Rightarrow> Inl e
      | Inr doc \<Rightarrow>
          Inr (extraction_of (str_join [newline] (paragraphs doc))
                 \<lparr> pages = sections doc,
                   title = or_default (core_title doc) ''Unknown'',
                   author = or_default (core_author doc) ''Unknown'',
                   subject = or_default (core_subject doc) [],
                   file_size = st_size f \<rparr>))"

text \<open>
  \<open>Path(file_path).suffix\<close> for a POSIX path: the name is the last component that is
  neither empty nor \<open>.\<close>, and the suffix starts at the last dot of the name, unless
  that dot is the first or the last character of the name.
\<close>

definition path_name :: "string \<Rightarrow> string" where
  "path_name p =
     (case filter (\<lambda>part. part \<noteq> [] \<and> part \<noteq> ''.'') (str_split_on CHR ''/'' p) of
        [] \<Rightarrow> []
      | part # parts \<Rightarrow> last (part # parts))"

definition path_suffix :: "string \<Rightarrow> string" where
  "path_suffix p =
     (let name = path_name p
      in if CHR ''.'' \<in> set name
         then (let i = length name - 1 - length (takeWhile (\<lambda>c. c \<noteq> CHR ''.'') (rev name))
               in if 0 < i \<and> i < length name - 1 then drop i name else [])
         else [])"

definition char_lower :: "char \<Rightarrow> char" where
  "char_lower c =
     (let n = (of_char c :: nat)
      in if (65 \<le> n \<and> n \<le> 90) \<or> (192 \<le> n \<and> n \<le> 222 \<and> n \<noteq> 215)
         then char_of (n + 32) else c)"

definition str_lower :: "string \<Rightarrow> string" where
  "str_lower s = map char_lower s"

definition extract_text :: "filesystem \<Rightarrow> string \<Rightarrow> exn + extraction" where
  "extract_text fs file_path =
     (case fs file_path of
        None \<Rightarrow> Inl FileNotFoundError
      | Some f \<Rightarrow>
          if str_lower (path_suffix file_path) = ''.pdf'' then extract_from_pdf f
          else if str_lower (path_suffix file_path) = ''.docx'' then extract_from_docx f
          else Inl ValueError)"

section \<open>Notions used in the proofs\<close>

text \<open>
  A token is what \<open>split()\<close> returns: a non-empty string without whitespace.
  \<open>str_rstrip\<close> is \<open>text.rstrip()\<close>, the second half of \<open>strip\<close>.
\<close>

definition is_token :: "string \<Rightarrow> bool" where
  "is_token w = (w \<noteq> [] \<and> (\<forall>c \<in> set w. \<not> is_space c))"

definition str_rstrip :: "string \<Rightarrow> string" where
  "str_rstrip s = rev (dropWhile is_space (rev s))"

section \<open>Sample inputs\<close>

text \<open>
  A PDF with one page reading "hello", a DOCX with one paragraph and no title, and a
  filesystem holding them; \<open>notes.txt\<close> is the PDF under another name.
\<close>

definition one_page_pdf :: document_file where
  "one_page_pdf =
     \<lparr> st_size = 1024,
       pdfplumber_open = Inr \<lparr> plumber_pages = [Some ''hello''], plumber_metadata = Map.empty \<rparr>,
       pypdf2_pages = Inr [''hello''],
       docx_open = Inl (LibraryError ''PackageNotFoundError'') \<rparr>"

definition one_paragraph_docx :: document_file where
  "one_paragraph_docx =
     \<lparr> st_size = 2048,
       pdfplumber_open = Inl (LibraryError ''PDFSyntaxError''),
       pypdf2_pages = Inl (LibraryError ''PdfReadError''),
       docx_open = Inr \<lparr> paragraphs = [''hi there''], core_title = Some [], core_author = None,
                          core_subject = None, sections = 1 \<rparr> \<rparr>"

definition sample_fs :: filesystem where
  "sample_fs =
     [''REPORT.PDF'' \<mapsto> one_page_pdf,
      ''docs/Letter.Docx'' \<mapsto> one_paragraph_docx,
      ''notes.txt'' \<mapsto> one_page_pdf]"

text \<open>Four lines, three of them with a single token: "a", "b", "c" and "d e f g".\<close>

definition short_lines_text :: string where
  "short_lines_text =
     ''a'' @ [newline] @ ''b'' @ [newline] @ ''c'' @ [newline] @ ''d e f g''"

section \<open>Facts about the string operations\<close>

lemma str_split_Nil: "str_split [] = []"
  by (simp add: str_split.simps)

lemma suffix_notes: "str_lower (path_suffix ''notes.txt'') = ''.txt''"
  by code_simp

lemma suffix_REPORT: "path_suffix ''REPORT.PDF'' = ''.PDF''"
  by code_simp

lemma lower_PDF: "str_lower ''.PDF'' = ''.pdf''"
  by code_simp

lemma suffix_Letter: "str_lower (path_suffix ''docs/Letter.Docx'') = ''.docx''"
  by code_simp

lemma extract_one_page_pdf:
  "extract_from_pdf one_page_pdf =
     Inr \<lparr> extracted_text = ''hello'',
           extracted_metadata = \<lparr> pages = 1, title = ''Unknown'', author = ''Unknown'',
                                   subject = [], file_size = 1024 \<rparr>,
           word_count = 1, char_count = 6 \<rparr>"
  by code_simp

subsection \<open>Splitting at whitespace\<close>

lemma is_space_blank: "is_space CHR '' ''"
  by (simp add: is_space_def)

lemma str_split_spaces: "dropWhile is_space s = [] \<Longrightarrow> str_split s = []"
  by (subst str_split.simps) (simp only: list.case)

lemma str_split_word:
  "dropWhile is_space s = c # cs \<Longrightarrow>
     str_split s = (c # takeWhile (\<lambda>x. \<not> is_space x) cs)
                     # str_split (dropWhile (\<lambda>x. \<not> is_space x) cs)"
  by (subst str_split.simps) (simp only: list.case)

lemma str_split_dropWhile: "str_split (dropWhile is_space s) = str_split s"
proof -
  have "dropWhile is_space (dropWhile is_space s) = dropWhile is_space s"
    by (rule dropWhile_idem)
  then show ?thesis
    using str_split.simps [of "dropWhile is_space s"] str_split.simps [of s] by simp
qed

lemma str_split_Cons:
  "str_split (c # cs) =
     (if is_space c then str_split cs
      else (c # takeWhile (\<lambda>x. \<not> is_space x) cs)
             # str_split (dropWhile (\<lambda>x. \<not> is_space x) cs))"
proof (cases "is_space c")
  case True
  then have "dropWhile is_space (c # cs) = dropWhile is_space cs" by simp
  then show ?thesis
    using True str_split_dropWhile [of "c # cs"] str_split_dropWhile [of cs] by simp
next
  case False
  then show ?thesis using str_split.simps [of "c # cs"] by simp
qed

lemma str_split_tokens: "w \<in> set (str_split s) \<Longrightarrow> is_token w"
proof (induction s arbitrary: w rule: str_split.induct)
  case (1 s)
  show ?case
  proof (cases "dropWhile is_space s")
    case Nil
    then have "str_split s = []" by (rule str_split_spaces)
    with "1.prems" show ?thesis by simp
  next
    case (Cons c cs)
    then have split: "str_split s = (c # takeWhile (\<lambda>x. \<not> is_space x) cs)
        # str_split (dropWhile (\<lambda>x. \<not> is_space x) cs)"
      by (rule str_split_word)
    have c: "\<not> is_space c"
      using Cons hd_dropWhile [of is_space s] by auto
    show ?thesis
    proof (cases "w = c # takeWhile (\<lambda>x. \<not> is_space x) cs")
      case True
      then show ?thesis
        using c by (auto simp add: is_token_def dest: set_takeWhileD)
    next
      case False
      with "1.prems" split have "w \<in> set (str_split (dropWhile (\<lambda>x. \<not> is_space x) cs))"
        by simp
      then show ?thesis by (rule "1.IH" [OF Cons])
    qed
  qed
qed

lemma str_split_token_blank:
  assumes "is_token w"
  shows "str_split (w @ CHR '' '' # rest) = w # str_split rest"
proof -
  from assms obtain c cs where w: "w = c # cs" and c: "\<not> is_space c"
    and cs: "\<forall>x \<in> set cs. \<not> is_space x"
    by (cases w) (auto simp add: is_token_def)
  have t: "takeWhile (\<lambda>x. \<not> is_space x) (cs @ CHR '' '' # rest) = cs"
    using cs by (simp add: takeWhile_append2 is_space_blank)
  have d: "dropWhile (\<lambda>x. \<not> is_space x) (cs @ CHR '' '' # rest) = CHR '' '' # rest"
    using cs by (simp add: dropWhile_append2 is_space_blank)
  show ?thesis
    using c by (simp add: w str_split_Cons t d is_space_blank)
qed

lemma str_split_token:
  assumes "is_token w"
  shows "str_split w = [w]"
proof -
  from assms obtain c cs where w: "w = c # cs" and c: "\<not> is_space c"
    and cs: "\<forall>x \<in> set cs. \<not> is_space x"
    by (cases w) (auto simp add: is_token_def)
  have t: "takeWhile (\<lambda>x. \<not> is_space x) cs = cs"
    using cs by (simp add: takeWhile_eq_all_conv)
  have d: "dropWhile (\<lambda>x. \<not> is_space x) cs = []"
    using cs by simp
  show ?thesis
    using c by (simp add: w str_split_Cons t d str_split.simps [of "[]"])
qed

lemma str_split_join:
  "\<forall>w \<in> set ws. is_token w \<Longrightarrow> str_split (str_join '' '' ws) = ws"
proof (induction "'' ''" ws rule: str_join.induct)
  case 1
  then show ?case by (simp add: str_split.simps [of "[]"])
next
  case (2 x)
  then show ?case by (simp add: str_split_token)
next
  case (3 x y ys)
  then show ?case by (simp add: str_split_token_blank)
qed

lemma takeWhile_before_spaces:
  "\<forall>c \<in> set b. is_space c \<Longrightarrow>
     takeWhile (\<lambda>x. \<not> is_space x) (cs @ b) = takeWhile (\<lambda>x. \<not> is_space x) cs"
proof (induction cs)
  case Nil
  then show ?case by (cases b) auto
next
  case (Cons c cs)
  then show ?case by simp
qed

lemma dropWhile_before_spaces:
  "\<forall>c \<in> set b. is_space c \<Longrightarrow>
     dropWhile (\<lambda>x. \<not> is_space x) (cs @ b) = dropWhile (\<lambda>x. \<not> is_space x) cs @ b"
proof (induction cs)
  case Nil
  then show ?case by (cases b) auto
next
  case (Cons c cs)
  then show ?case by simp
qed

lemma str_split_append_spaces:
  "\<forall>c \<in> set b. is_space c \<Longrightarrow> str_split (a @ b) = str_split a"
proof (induction a rule: str_split.induct)
  case (1 s)
  show ?case
  proof (cases "dropWhile is_space s")
    case Nil
    then have all: "\<forall>c \<in> set s. is_space c" by (simp add: dropWhile_eq_Nil_conv)
    with "1.prems" have "dropWhile is_space (s @ b) = []" by auto
    then have "str_split (s @ b) = []" by (rule str_split_spaces)
    moreover have "str_split s = []" using Nil by (rule str_split_spaces)
    ultimately show ?thesis by simp
  next
    case (Cons c cs)
    then obtain x where "x \<in> set s" and "\<not> is_space x"
      by (metis dropWhile_eq_Nil_conv list.distinct(1))
    then have "dropWhile is_space (s @ b) = dropWhile is_space s @ b"
      by (rule dropWhile_append1)
    then have dw: "dropWhile is_space (s @ b) = c # cs @ b"
      by (simp add: Cons)
    have tk: "takeWhile (\<lambda>x. \<not> is_space x) (cs @ b) = takeWhile (\<lambda>x. \<not> is_space x) cs"
      using "1.prems" by (rule takeWhile_before_spaces)
    have dr: "dropWhile (\<lambda>x. \<not> is_space x) (cs @ b) = dropWhile (\<lambda>x. \<not> is_space x) cs @ b"
      using "1.prems" by (rule dropWhile_before_spaces)
    have "str_split (s @ b) = (c # takeWhile (\<lambda>x. \<not> is_space x) cs)
        # str_split (dropWhile (\<lambda>x. \<not> is_space x) cs @ b)"
      using str_split_word [OF dw] by (simp add: tk dr)
    also have "str_split (dropWhile (\<lambda>x. \<not> is_space x) cs @ b)
        = str_split (dropWhile (\<lambda>x. \<not> is_space x) cs)"
      using "1.IH" [OF Cons "1.prems"] .
    finally show ?thesis using str_split_word [OF Cons] by simp
  qed
qed

lemma str_split_strip: "str_split (str_strip s) = str_split s"
proof -
  let ?t = "dropWhile is_space s"
  have "rev (dropWhile is_space (rev ?t)) @ rev (takeWhile is_space (rev ?t)) = ?t"
    by (metis rev_append rev_rev_ident takeWhile_dropWhile_id)
  moreover have "\<forall>c \<in> set (rev (takeWhile is_space (rev ?t))). is_space c"
    by (auto dest: set_takeWhileD)
  ultimately have "str_split ?t = str_split (rev (dropWhile is_space (rev ?t)))"
    using str_split_append_spaces by metis
  then show ?thesis by (simp add: str_strip_def str_split_dropWhile)
qed

lemma length_str_strip: "length (str_strip s) \<le> length s"
proof -
  have "length (str_strip s) \<le> length (dropWhile is_space s)"
    unfolding str_strip_def using length_dropWhile_le [of is_space "rev (dropWhile is_space s)"]
    by simp
  then show ?thesis using length_dropWhile_le [of is_space s] by simp
qed

subsection \<open>Joining\<close>

lemma str_join_snoc:
  "str_join sep (xs @ [y]) = (if xs = [] then y else str_join sep xs @ sep @ y)"
  by (induction sep xs rule: str_join.induct) auto

lemma str_join_append:
  "xs \<noteq> [] \<Longrightarrow> ys \<noteq> [] \<Longrightarrow>
     str_join sep (xs @ ys) = str_join sep xs @ sep @ str_join sep ys"
proof (induction sep xs rule: str_join.induct)
  case (1 sep)
  then show ?case by simp
next
  case (2 sep x)
  then show ?case by (cases ys) auto
next
  case (3 sep x y ys)
  then show ?case by simp
qed

lemma str_join_glue:
  "str_join sep (xs @ [a @ sep @ b]) = str_join sep (xs @ [a, b])"
  by (induction sep xs rule: str_join.induct) simp_all

subsection \<open>Stripping and collapsing whitespace\<close>

lemma str_strip_rstrip: "str_strip s = str_rstrip (dropWhile is_space s)"
  by (simp add: str_strip_def str_rstrip_def)

lemma str_rstrip_append:
  "str_rstrip (a @ b) = (if \<forall>c \<in> set b. is_space c then str_rstrip a else a @ str_rstrip b)"
  by (simp add: str_rstrip_def dropWhile_append)

lemma str_rstrip_append_spaces:
  "\<forall>c \<in> set b. is_space c \<Longrightarrow> str_rstrip (a @ b) = str_rstrip a"
  by (simp add: str_rstrip_append)

lemma str_rstrip_append_word:
  "\<not> (\<forall>c \<in> set b. is_space c) \<Longrightarrow> str_rstrip (a @ b) = a @ str_rstrip b"
  by (auto simp add: str_rstrip_append)

lemma str_rstrip_nonspace:
  assumes "\<forall>c \<in> set w. \<not> is_space c"
  shows "str_rstrip w = w"
proof -
  have "dropWhile is_space (rev w) = rev w"
  proof (cases "rev w")
    case Nil
    then show ?thesis by simp
  next
    case (Cons x xs)
    then have "x \<in> set (rev w)" by simp
    then have "\<not> is_space x" using assms by simp
    then show ?thesis by (simp add: Cons)
  qed
  then show ?thesis by (simp add: str_rstrip_def)
qed

lemma str_rstrip_Nil_iff: "str_rstrip s = [] \<longleftrightarrow> (\<forall>c \<in> set s. is_space c)"
  by (simp add: str_rstrip_def dropWhile_eq_Nil_conv)

lemma collapse_nonspace_prefix:
  "\<forall>c \<in> set w. \<not> is_space c \<Longrightarrow> collapse_whitespace (w @ r) = w @ collapse_whitespace r"
  by (induction w) simp_all

lemma collapse_no_leading_space:
  "u = [] \<or> \<not> is_space (hd u) \<Longrightarrow> dropWhile is_space (collapse_whitespace u) = collapse_whitespace u"
  by (cases u) auto

lemma dropWhile_collapse:
  "dropWhile is_space (collapse_whitespace s) = collapse_whitespace (dropWhile is_space s)"
proof (cases s)
  case Nil
  then show ?thesis by simp
next
  case (Cons c cs)
  show ?thesis
  proof (cases "is_space c")
    case True
    have "dropWhile is_space cs = [] \<or> \<not> is_space (hd (dropWhile is_space cs))"
      using hd_dropWhile [of is_space cs] by blast
    then have "dropWhile is_space (collapse_whitespace (dropWhile is_space cs))
        = collapse_whitespace (dropWhile is_space cs)"
      by (rule collapse_no_leading_space)
    then show ?thesis using True Cons by (simp add: is_space_blank)
  next
    case False
    then show ?thesis using Cons by simp
  qed
qed

lemma strip_collapse:
  "str_strip (collapse_whitespace s) = str_rstrip (collapse_whitespace (dropWhile is_space s))"
  by (simp add: str_strip_rstrip dropWhile_collapse)

lemma str_join_Nil_iff_tokens:
  "\<forall>w \<in> set ws. w \<noteq> [] \<Longrightarrow> str_join sep ws = [] \<longleftrightarrow> ws = []"
  by (induction sep ws rule: str_join.induct) auto

lemma strip_collapse_join:
  "str_strip (collapse_whitespace s) = str_join '' '' (str_split s)"
proof (induction s rule: str_split.induct)
  case (1 s)
  show ?case
  proof (cases "dropWhile is_space s")
    case Nil
    have "str_strip (collapse_whitespace s) = str_rstrip (collapse_whitespace [])"
      by (simp only: strip_collapse Nil)
    then show ?thesis by (simp add: str_rstrip_def str_split_spaces [OF Nil])
  next
    case (Cons c cs)
    let ?w = "c # takeWhile (\<lambda>x. \<not> is_space x) cs"
    let ?r = "dropWhile (\<lambda>x. \<not> is_space x) cs"
    have c: "\<not> is_space c"
      using Cons hd_dropWhile [of is_space s] by auto
    have w: "\<forall>x \<in> set ?w. \<not> is_space x"
      using c by (auto dest: set_takeWhileD)
    have split: "str_split s = ?w # str_split ?r" using Cons by (rule str_split_word)
    have parts: "dropWhile is_space s = ?w @ ?r" using Cons by simp
    have IH: "str_strip (collapse_whitespace ?r) = str_join '' '' (str_split ?r)"
      using Cons by (rule "1.IH")
    have tokens: "\<forall>x \<in> set (str_split ?r). x \<noteq> []"
      using str_split_tokens by (auto simp add: is_token_def)
    have lhs: "str_strip (collapse_whitespace s) = str_rstrip (?w @ collapse_whitespace ?r)"
      using w by (simp only: strip_collapse parts collapse_nonspace_prefix)
    show ?thesis
    proof (cases ?r)
      case Nil
      then show ?thesis
        using w by (simp only: lhs split collapse_whitespace.simps append_Nil2
            str_rstrip_nonspace str_split_Nil str_join.simps)
    next
      case (Cons d ds)
      then have d: "is_space d"
        using hd_dropWhile [of "\<lambda>x. \<not> is_space x" cs] by auto
      let ?x = "collapse_whitespace (dropWhile is_space ds)"
      have cr: "collapse_whitespace ?r = CHR '' '' # ?x" using Cons d by simp
      have "dropWhile is_space ?r = dropWhile is_space ds" using Cons d by simp
      then have "str_strip (collapse_whitespace ?r) = str_rstrip ?x"
        by (simp only: strip_collapse)
      with IH have x: "str_rstrip ?x = str_join '' '' (str_split ?r)" by simp
      show ?thesis
      proof (cases "\<forall>y \<in> set ?x. is_space y")
        case True
        then have "str_rstrip ?x = []" by (simp add: str_rstrip_Nil_iff)
        with x have "str_join '' '' (str_split ?r) = []" by simp
        with str_join_Nil_iff_tokens [OF tokens, of "'' ''"] have none: "str_split ?r = []"
          by blast
        have spaces: "\<forall>y \<in> set (CHR '' '' # ?x). is_space y"
          using True by (simp add: is_space_blank)
        have "str_strip (collapse_whitespace s) = str_rstrip (?w @ CHR '' '' # ?x)"
          by (simp only: lhs cr)
        also have "\<dots> = str_rstrip ?w"
          using spaces by (rule str_rstrip_append_spaces)
        also have "\<dots> = ?w" using w by (rule str_rstrip_nonspace)
        also have "\<dots> = str_join '' '' (str_split s)"
          by (simp only: split none str_join.simps)
        finally show ?thesis .
      next
        case False
        then have "str_rstrip ?x \<noteq> []" by (simp add: str_rstrip_Nil_iff)
        with x have "str_split ?r \<noteq> []" by auto
        then obtain v vs where vs: "str_split ?r = v # vs" by (cases "str_split ?r") auto
        have some: "\<not> (\<forall>y \<in> set (CHR '' '' # ?x). is_space y)"
          using False by simp
        have "str_strip (collapse_whitespace s) = str_rstrip (?w @ CHR '' '' # ?x)"
          by (simp only: lhs cr)
        also have "\<dots> = ?w @ str_rstrip (CHR '' '' # ?x)"
          using some by (rule str_rstrip_append_word)
        also have "str_rstrip (CHR '' '' # ?x) = CHR '' '' # str_rstrip ?x"
          using str_rstrip_append_word [OF False, of "[CHR '' '']"] by simp
        also have "str_rstrip ?x = str_join '' '' (v # vs)"
          by (simp only: x vs)
        also have "?w @ CHR '' '' # str_join '' '' (v # vs) = str_join '' '' (str_split s)"
          by (simp only: split vs) simp
        finally show ?thesis .
      qed
    qed
  qed
qed

lemma collapse_spaces_blank:
  "c \<in> set (collapse_whitespace s) \<Longrightarrow> is_space c \<Longrightarrow> c = CHR '' ''"
proof (induction s arbitrary: c rule: collapse_whitespace.induct)
  case 1
  then show ?case by simp
next
  case (2 d ds)
  then show ?case by (auto split: if_splits)
qed

lemma set_collapse: "set (collapse_whitespace s) \<subseteq> insert CHR '' '' (set s)"
proof (induction s rule: collapse_whitespace.induct)
  case 1
  then show ?case by simp
next
  case (2 d ds)
  then show ?case using set_dropWhileD [of _ is_space ds] by (auto split: if_splits)
qed

lemma newline_not_blank: "is_space newline \<and> newline \<noteq> CHR '' ''"
  by (simp add: newline_def is_space_def)

lemma no_newline_after_collapse: "newline \<notin> set (remove_special (collapse_whitespace s))"
  using collapse_spaces_blank [of newline s] newline_not_blank
  by (auto simp add: remove_special_def)

lemma str_split_on_absent: "sep \<notin> set u \<Longrightarrow> str_split_on sep u = [u]"
  by (induction u) auto

lemma str_strip_Nil: "str_strip [] = []"
  by (simp add: str_strip_def)

lemma str_split_collapse: "str_split (collapse_whitespace s) = str_split s"
proof -
  have "str_split (collapse_whitespace s) = str_split (str_strip (collapse_whitespace s))"
    by (simp only: str_split_strip)
  also have "\<dots> = str_split (str_join '' '' (str_split s))"
    by (simp only: strip_collapse_join)
  also have "\<dots> = str_split s"
    by (rule str_split_join) (simp add: str_split_tokens)
  finally show ?thesis .
qed

lemma is_kept_blank: "is_kept CHR '' ''"
  by (simp add: is_kept_def is_space_blank)

lemma remove_special_kept: "\<forall>c \<in> set s. is_kept c \<Longrightarrow> remove_special s = s"
  by (simp add: remove_special_def)

lemma remove_special_collapse_kept:
  assumes "\<forall>c \<in> set s. is_kept c"
  shows "remove_special (collapse_whitespace s) = collapse_whitespace s"
proof (rule remove_special_kept)
  show "\<forall>c \<in> set (collapse_whitespace s). is_kept c"
    using assms set_collapse [of s] is_kept_blank by auto
qed

lemma set_str_split: "w \<in> set (str_split s) \<Longrightarrow> set w \<subseteq> set s"
proof (induction s arbitrary: w rule: str_split.induct)
  case (1 s)
  show ?case
  proof (cases "dropWhile is_space s")
    case Nil
    then have "str_split s = []" by (rule str_split_spaces)
    with "1.prems" show ?thesis by simp
  next
    case (Cons c cs)
    have sub: "set (c # cs) \<subseteq> set s"
      using Cons set_dropWhileD [of _ is_space s] by auto
    from "1.prems" str_split_word [OF Cons]
    consider "w = c # takeWhile (\<lambda>x. \<not> is_space x) cs"
      | "w \<in> set (str_split (dropWhile (\<lambda>x. \<not> is_space x) cs))"
      by auto
    then show ?thesis
    proof cases
      case 1
      then show ?thesis using sub by (auto dest: set_takeWhileD)
    next
      case 2
      then have "set w \<subseteq> set (dropWhile (\<lambda>x. \<not> is_space x) cs)"
        by (rule "1.IH" [OF Cons])
      then show ?thesis using sub by (auto dest: set_dropWhileD)
    qed
  qed
qed

lemma set_str_join: "set (str_join sep ws) \<subseteq> set sep \<union> (\<Union>w \<in> set ws. set w)"
  by (induction sep ws rule: str_join.induct) auto

lemma normalised_kept:
  assumes "\<forall>c \<in> set s. is_kept c"
  shows "\<forall>c \<in> set (str_join '' '' (str_split s)). is_kept c"
proof
  fix c
  assume "c \<in> set (str_join '' '' (str_split s))"
  with set_str_join [of "'' ''" "str_split s"]
  have "c = CHR '' '' \<or> (\<exists>w \<in> set (str_split s). c \<in> set w)" by auto
  then show "is_kept c"
    using assms set_str_split [of _ s] is_kept_blank by auto
qed

lemma set_str_strip: "set (str_strip s) \<subseteq> set s"
proof
  fix c
  assume "c \<in> set (str_strip s)"
  then have "c \<in> set (dropWhile is_space (rev (dropWhile is_space s)))"
    by (simp add: str_strip_def)
  then have "c \<in> set (rev (dropWhile is_space s))" by (rule set_dropWhileD)
  then have "c \<in> set (dropWhile is_space s)" by simp
  then show "c \<in> set s" by (rule set_dropWhileD)
qed


subsection \<open>The chunking loop\<close>

lemma chunk_loop_Cons:
  "chunk_loop m (w # ws) chunks cur =
     (if int (length (str_join '' '' (cur @ [w]))) > m
      then chunk_loop m ws (chunks @ [str_join '' '' cur]) [w]
      else chunk_loop m ws chunks (cur @ [w]))"
  by (simp add: Let_def)

lemma chunk_loop_words:
  assumes "chunk_loop m ws chunks cur = (chunks', cur')"
    and "\<forall>w \<in> set cur. is_token w" and "\<forall>w \<in> set ws. is_token w"
  shows "concat (map str_split chunks') @ cur' = concat (map str_split chunks) @ cur @ ws
         \<and> (\<forall>w \<in> set cur'. is_token w)"
  using assms
proof (induction ws arbitrary: chunks cur)
  case Nil
  then show ?case by simp
next
  case (Cons w ws)
  have w: "is_token w" and ws: "\<forall>x \<in> set ws. is_token x"
    using Cons.prems(3) by simp_all
  show ?case
  proof (cases "int (length (str_join '' '' (cur @ [w]))) > m")
    case True
    with Cons.prems(1)
    have run: "chunk_loop m ws (chunks @ [str_join '' '' cur]) [w] = (chunks', cur')"
      by (simp only: chunk_loop_Cons if_True)
    have one: "\<forall>x \<in> set [w]. is_token x" using w by simp
    have rejoin: "str_split (str_join '' '' cur) = cur"
      using Cons.prems(2) by (rule str_split_join)
    from Cons.IH [OF run one ws] show ?thesis by (simp add: rejoin)
  next
    case False
    with Cons.prems(1) have run: "chunk_loop m ws chunks (cur @ [w]) = (chunks', cur')"
      by (simp only: chunk_loop_Cons if_False)
    have more: "\<forall>x \<in> set (cur @ [w]). is_token x" using w Cons.prems(2) by simp
    from Cons.IH [OF run more ws] show ?thesis by simp
  qed
qed

lemma chunk_loop_bound:
  assumes "chunk_loop m ws chunks cur = (chunks', cur')"
    and "\<forall>c \<in> set chunks. int (length c) \<le> m \<or> c \<in> W"
    and "int (length (str_join '' '' cur)) \<le> m \<or> str_join '' '' cur \<in> W"
    and "set ws \<subseteq> W"
  shows "(\<forall>c \<in> set chunks'. int (length c) \<le> m \<or> c \<in> W)
         \<and> (int (length (str_join '' '' cur')) \<le> m \<or> str_join '' '' cur' \<in> W)"
  using assms
proof (induction ws arbitrary: chunks cur)
  case Nil
  then show ?case by simp
next
  case (Cons w ws)
  have w: "w \<in> W" and ws: "set ws \<subseteq> W"
    using Cons.prems(4) by simp_all
  show ?case
  proof (cases "int (length (str_join '' '' (cur @ [w]))) > m")
    case True
    with Cons.prems(1)
    have run: "chunk_loop m ws (chunks @ [str_join '' '' cur]) [w] = (chunks', cur')"
      by (simp only: chunk_loop_Cons if_True)
    have chunks: "\<forall>c \<in> set (chunks @ [str_join '' '' cur]). int (length c) \<le> m \<or> c \<in> W"
      using Cons.prems(2) Cons.prems(3) by auto
    have cur: "int (length (str_join '' '' [w])) \<le> m \<or> str_join '' '' [w] \<in> W"
      using w by simp
    from Cons.IH [OF run chunks cur ws] show ?thesis .
  next
    case False
    with Cons.prems(1) have run: "chunk_loop m ws chunks (cur @ [w]) = (chunks', cur')"
      by (simp only: chunk_loop_Cons if_False)
    have cur: "int (length (str_join '' '' (cur @ [w]))) \<le> m \<or> str_join '' '' (cur @ [w]) \<in> W"
      using False by simp
    from Cons.IH [OF run Cons.prems(2) cur ws] show ?thesis .
  qed
qed

lemma chunk_loop_join:
  assumes "chunk_loop m ws chunks cur = (chunks', cur')" and "cur \<noteq> []"
  shows "cur' \<noteq> [] \<and> str_join '' '' (chunks' @ [str_join '' '' cur'])
           = str_join '' '' (chunks @ [str_join '' '' (cur @ ws)])"
  using assms
proof (induction ws arbitrary: chunks cur)
  case Nil
  then show ?case by simp
next
  case (Cons w ws)
  show ?case
  proof (cases "int (length (str_join '' '' (cur @ [w]))) > m")
    case True
    with Cons.prems(1)
    have run: "chunk_loop m ws (chunks @ [str_join '' '' cur]) [w] = (chunks', cur')"
      by (simp only: chunk_loop_Cons if_True)
    have one: "[w] \<noteq> []" by simp
    have "str_join '' '' (cur @ w # ws)
        = str_join '' '' cur @ '' '' @ str_join '' '' (w # ws)"
      using Cons.prems(2) by (intro str_join_append) simp_all
    then have glue: "str_join '' '' (chunks @ [str_join '' '' (cur @ w # ws)])
        = str_join '' '' (chunks @ [str_join '' '' cur, str_join '' '' (w # ws)])"
      by (simp only: str_join_glue)
    from Cons.IH [OF run one] show ?thesis by (simp add: glue)
  next
    case False
    with Cons.prems(1) have run: "chunk_loop m ws chunks (cur @ [w]) = (chunks', cur')"
      by (simp only: chunk_loop_Cons if_False)
    have more: "cur @ [w] \<noteq> []" by simp
    from Cons.IH [OF run more] show ?thesis by simp
  qed
qed


section \<open>Chunking\<close>

text \<open>
  C1. The claim: the chunks, joined by single spaces, give back the words of the text
  joined by single spaces. When the first word is longer than \<open>max_length\<close> the loop
  appends \<open>' '.join([])\<close>, so the first chunk is the empty string and the joined chunks
  start with a space that the normalised text does not have: for "hello" and 3 the
  chunks are "" and "hello".
\<close>

theorem split_text_into_chunks_leading_empty_chunk:
  "split_text_into_chunks ''hello'' 3 = ['''', ''hello'']
   \<and> str_join '' '' (split_text_into_chunks ''hello'' 3) = '' hello''
   \<and> str_join '' '' (str_split ''hello'') = ''hello''"
  by code_simp

text \<open>
  What the chunks do satisfy, for every text and every \<open>max_length\<close>. Splitting the
  chunks again gives the words of the text, in order: no word is lost, repeated or cut
  in two.
\<close>

lemma split_text_into_chunks_words:
  "concat (map str_split (split_text_into_chunks text0 m)) = str_split text0"
proof -
  obtain chunks cur where run: "chunk_loop m (str_split text0) [] [] = (chunks, cur)"
    by (cases "chunk_loop m (str_split text0) [] []")
  have tokens: "\<forall>w \<in> set (str_split text0). is_token w"
    by (simp add: str_split_tokens)
  have none: "\<forall>w \<in> set ([] :: string list). is_token w" by simp
  from chunk_loop_words [OF run none tokens]
  have all: "concat (map str_split chunks) @ cur = str_split text0"
    and cur: "\<forall>w \<in> set cur. is_token w"
    by simp_all
  from cur have rejoin: "str_split (str_join '' '' cur) = cur" by (rule str_split_join)
  show ?thesis
  proof (cases "cur = []")
    case True
    with all show ?thesis by (simp add: split_text_into_chunks_def run)
  next
    case False
    with all show ?thesis by (simp add: split_text_into_chunks_def run rejoin)
  qed
qed

text \<open>
  For \<open>max_length\<close> of 0 or more, a chunk longer than \<open>max_length\<close> is one word of the
  text on its own.
\<close>

lemma split_text_into_chunks_bound:
  assumes "0 \<le> m" and "c \<in> set (split_text_into_chunks text0 m)"
  shows "int (length c) \<le> m \<or> c \<in> set (str_split text0)"
proof -
  obtain chunks cur where run: "chunk_loop m (str_split text0) [] [] = (chunks, cur)"
    by (cases "chunk_loop m (str_split text0) [] []")
  have none: "\<forall>c \<in> set ([] :: string list). int (length c) \<le> m \<or> c \<in> set (str_split text0)"
    by simp
  have start: "int (length (str_join '' '' [])) \<le> m \<or> str_join '' '' [] \<in> set (str_split text0)"
    using assms(1) by simp
  have sub: "set (str_split text0) \<subseteq> set (str_split text0)" by simp
  from chunk_loop_bound [OF run none start sub] assms(2)
  show ?thesis by (auto simp add: split_text_into_chunks_def run split: if_splits)
qed

text \<open>
  The joined chunks are the words joined by single spaces exactly when the first word
  fits; when it does not, they are that text with a space in front.
\<close>

lemma split_text_into_chunks_join:
  "str_join '' '' (split_text_into_chunks text0 m) =
     (case str_split text0 of
        [] \<Rightarrow> []
      | w # ws \<Rightarrow>
          if int (length w) > m then CHR '' '' # str_join '' '' (str_split text0)
          else str_join '' '' (str_split text0))"
proof (cases "str_split text0")
  case Nil
  then show ?thesis by (simp add: split_text_into_chunks_def)
next
  case (Cons w ws)
  obtain chunks cur where run: "chunk_loop m (str_split text0) [] [] = (chunks, cur)"
    by (cases "chunk_loop m (str_split text0) [] []")
  have one: "[w] \<noteq> []" by simp
  show ?thesis
  proof (cases "int (length w) > m")
    case True
    with run Cons have rest: "chunk_loop m ws [[]] [w] = (chunks, cur)"
      by (simp add: chunk_loop_Cons)
    from chunk_loop_join [OF rest one] True Cons show ?thesis
      by (simp add: split_text_into_chunks_def chunk_loop_Cons rest)
  next
    case False
    with run Cons have rest: "chunk_loop m ws [] [w] = (chunks, cur)"
      by (simp add: chunk_loop_Cons)
    from chunk_loop_join [OF rest one] False Cons show ?thesis
      by (simp add: split_text_into_chunks_def chunk_loop_Cons rest)
  qed
qed

section \<open>Preprocessing\<close>

text \<open>
  C3. The claim: preprocessing a preprocessed text changes nothing. Removing a
  character that stands between two spaces leaves the two spaces side by side, after
  the whitespace runs were collapsed; a second pass collapses them. So "a @ b c d"
  becomes "a  b c d" and that becomes "a b c d".
\<close>

theorem preprocess_text_not_idempotent:
  "preprocess_text ''a @ b c d'' = ''a  b c d''
   \<and> preprocess_text (preprocess_text ''a @ b c d'') = ''a b c d''"
  by code_simp

text \<open>
  C5. The claim: among its steps, \<open>preprocess_text\<close> drops every line with 3 or fewer
  tokens and returns the remaining lines. The code replaces every run of whitespace,
  newlines included, by a space before it splits the text at newlines, so it never
  sees more than one line and no short line of the input is dropped: of the four lines
  "a", "b", "c", "d e f g" the first three have one token each, and the result is
  "a b c d e f g".
\<close>

theorem preprocess_text_keeps_short_lines:
  "str_split_on newline short_lines_text = [''a'', ''b'', ''c'', ''d e f g'']
   \<and> preprocess_text short_lines_text = ''a b c d e f g''"
  by code_simp

text \<open>
  For every text: after the whitespace is collapsed no newline is left, so there is
  one line, and the result is the whole cleaned text, stripped, or nothing.
\<close>

lemma preprocess_text_one_line:
  "preprocess_text text0 =
     (if 3 < length (str_split (remove_special (collapse_whitespace text0)))
      then str_strip (remove_special (collapse_whitespace text0)) else [])"
  by (simp add: preprocess_text_def str_split_on_absent [OF no_newline_after_collapse]
      str_strip_Nil)

text \<open>
  On a text in which every character is kept, the result is the words joined by single
  spaces (when there are more than 3), and preprocessing is idempotent. The output of
  \<open>preprocess_text\<close> is such a text, so a third pass never changes what the second
  returned.
\<close>

lemma preprocess_text_kept:
  assumes "\<forall>c \<in> set text0. is_kept c"
  shows "preprocess_text text0 =
           (if 3 < length (str_split text0) then str_join '' '' (str_split text0) else [])"
  by (simp add: preprocess_text_one_line remove_special_collapse_kept [OF assms]
      str_split_collapse strip_collapse_join)

lemma preprocess_text_idempotent_on_kept:
  assumes "\<forall>c \<in> set text0. is_kept c"
  shows "preprocess_text (preprocess_text text0) = preprocess_text text0"
proof (cases "3 < length (str_split text0)")
  case True
  let ?n = "str_join '' '' (str_split text0)"
  have first: "preprocess_text text0 = ?n"
    using True by (simp add: preprocess_text_kept [OF assms])
  have again: "str_split ?n = str_split text0"
    by (rule str_split_join) (simp add: str_split_tokens)
  have "preprocess_text ?n = (if 3 < length (str_split ?n) then str_join '' '' (str_split ?n) else [])"
    by (rule preprocess_text_kept [OF normalised_kept [OF assms]])
  then show ?thesis using True by (simp add: first again)
next
  case False
  then have "preprocess_text text0 = []"
    by (simp add: preprocess_text_kept [OF assms])
  moreover have "preprocess_text [] = []"
    by (simp add: preprocess_text_one_line remove_special_def str_split_Nil)
  ultimately show ?thesis by simp
qed

lemma preprocess_text_kept_output: "\<forall>c \<in> set (preprocess_text text0). is_kept c"
proof -
  have "\<forall>c \<in> set (remove_special (collapse_whitespace text0)). is_kept c"
    by (simp add: remove_special_def)
  then show ?thesis
    using set_str_strip [of "remove_special (collapse_whitespace text0)"]
    by (auto simp add: preprocess_text_one_line)
qed

lemma preprocess_text_stable_after_two:
  "preprocess_text (preprocess_text (preprocess_text text0))
     = preprocess_text (preprocess_text text0)"
  by (rule preprocess_text_idempotent_on_kept [OF preprocess_text_kept_output])


section \<open>Summaries\<close>

text \<open>
  C2. The claim: on a text without tokens \<open>generate_summary\<close> fails with an explicit
  empty-input error or returns ratio 0. The code divides by the token count of the
  text with no guard: on the empty string, with the extractive method (which never
  raises), the call ends in \<open>ZeroDivisionError\<close>, whatever the libraries return.
\<close>

theorem generate_summary_empty_text_divides_by_zero:
  "generate_summary textrank abstractive [] ''extractive'' = Inl ZeroDivisionError"
  by (simp add: generate_summary_def str_split_Nil)

text \<open>
  The same for every text without tokens (empty, or whitespace only) and every method:
  no result is returned. The call ends in \<open>ZeroDivisionError\<close> unless the method is
  unknown or the abstractive step raises first.
\<close>

lemma generate_summary_no_tokens:
  assumes "str_split text0 = []"
  shows "generate_summary textrank abstractive text0 method =
           (if method = ''extractive'' then Inl ZeroDivisionError
            else if method = ''abstractive''
            then (case abstractive (preprocess_text text0) of
                    Inl e \<Rightarrow> Inl e
                  | Inr s \<Rightarrow> Inl ZeroDivisionError)
            else if method = ''hybrid''
            then (case abstractive
                         (extractive_summarization textrank (preprocess_text text0) 10) of
                    Inl e \<Rightarrow> Inl e
                  | Inr s \<Rightarrow> Inl ZeroDivisionError)
            else Inl ValueError)"
  using assms by (simp add: generate_summary_def split: sum.splits)

lemma generate_summary_no_tokens_no_result:
  assumes "str_split text0 = []"
  shows "generate_summary textrank abstractive text0 method \<noteq> Inr r"
  by (simp add: generate_summary_no_tokens [OF assms] split: sum.splits)

text \<open>
  C6. For every text and every method other than "extractive", "abstractive" and
  "hybrid", \<open>generate_summary\<close> raises \<open>ValueError\<close> and returns nothing.
\<close>

theorem generate_summary_unknown_method:
  "method \<notin> {''extractive'', ''abstractive'', ''hybrid''}
   \<Longrightarrow> generate_summary textrank abstractive text0 method = Inl ValueError"
  by (simp add: generate_summary_def)

theorem generate_summary_unknown_method_witness:
  "''bogus'' \<notin> {''extractive'', ''abstractive'', ''hybrid''}
   \<and> generate_summary (\<lambda>t n. Inr []) (\<lambda>s. Inr s) ''a b c d e'' ''bogus'' = Inl ValueError"
proof -
  have h: "''bogus'' \<notin> {''extractive'', ''abstractive'', ''hybrid''}" by simp
  from generate_summary_unknown_method [OF h] h show ?thesis by simp
qed

text \<open>
  C9. The claim: with the method "hybrid", \<open>generate_summary\<close> produces the abstractive
  summary of the extractive summary (10 sentences) of the preprocessed text. The code
  computes the extractive summary and then calls \<open>self.abstractive_summarization\<close>,
  which the class does not define: for every text, and whatever the extractive step
  returns, the call ends in \<open>AttributeError\<close> and no summary is produced.
\<close>

theorem generate_summary_hybrid_missing_method:
  "generate_summary textrank abstractive_summarization text0 ''hybrid'' = Inl AttributeError"
  by (simp add: generate_summary_def abstractive_summarization_def)

text \<open>
  The composition that the code writes down is the one of the claim: with any method
  \<open>abstractive\<close> behind the name, on a text with at least one token, an exception of
  that method propagates and otherwise the summary returned is its output on the
  extractive summary.
\<close>

lemma generate_summary_hybrid_composes:
  assumes "str_split text0 \<noteq> []"
  shows "case abstractive (extractive_summarization textrank (preprocess_text text0) 10) of
           Inl e \<Rightarrow> generate_summary textrank abstractive text0 ''hybrid'' = Inl e
         | Inr s \<Rightarrow> (\<exists>r. generate_summary textrank abstractive text0 ''hybrid'' = Inr r
                        \<and> summary r = s)"
  using assms by (simp add: generate_summary_def split: sum.splits)

section \<open>Extraction\<close>

text \<open>
  C4. The claim: \<open>char_count\<close> is the length of the returned text. The returned text
  is stripped and \<open>char_count\<close> is the length of the text before stripping; every PDF
  page adds a newline, so for a PDF with the single page "hello" the text returned is
  "hello" and \<open>char_count\<close> is 6.
\<close>

theorem extract_text_char_count_of_unstripped_text:
  "extract_text sample_fs ''REPORT.PDF'' =
     Inr \<lparr> extracted_text = ''hello'',
           extracted_metadata = \<lparr> pages = 1, title = ''Unknown'', author = ''Unknown'',
                                   subject = [], file_size = 1024 \<rparr>,
           word_count = 1, char_count = 6 \<rparr>"
proof -
  have "str_lower (path_suffix ''REPORT.PDF'') = ''.pdf''"
    by (simp add: suffix_REPORT lower_PDF)
  then show ?thesis by (simp add: extract_text_def sample_fs_def extract_one_page_pdf)
qed

text \<open>
  What the counts do satisfy, for every extraction that succeeds: \<open>word_count\<close> is the
  number of tokens of the returned text, and \<open>char_count\<close> is at least its length.
\<close>

lemma extraction_of_counts:
  "word_count (extraction_of t md) = length (str_split (extracted_text (extraction_of t md)))
   \<and> char_count (extraction_of t md) = length t
   \<and> length (extracted_text (extraction_of t md)) \<le> char_count (extraction_of t md)"
  by (simp add: extraction_of_def str_split_strip length_str_strip)

lemma extract_text_is_extraction_of:
  "extract_text fs p = Inr r \<Longrightarrow> \<exists>t md. r = extraction_of t md"
  by (auto simp add: extract_text_def extract_from_pdf_def extract_from_docx_def Let_def
      split: option.splits sum.splits if_splits)

lemma extract_text_word_count:
  assumes "extract_text fs p = Inr r"
  shows "word_count r = length (str_split (extracted_text r))
         \<and> length (extracted_text r) \<le> char_count r"
proof -
  from extract_text_is_extraction_of [OF assms] obtain t md where "r = extraction_of t md"
    by blast
  then show ?thesis using extraction_of_counts [of t md] by simp
qed


text \<open>
  C7. For every path that is not on the filesystem, whatever its extension,
  \<open>extract_text\<close> raises \<open>FileNotFoundError\<close>.
\<close>

theorem extract_text_missing_file:
  "fs file_path = None \<Longrightarrow> extract_text fs file_path = Inl FileNotFoundError"
  by (simp add: extract_text_def)

theorem extract_text_missing_file_witness:
  "sample_fs ''missing.pdf'' = None
   \<and> extract_text sample_fs ''missing.pdf'' = Inl FileNotFoundError"
proof -
  have h: "sample_fs ''missing.pdf'' = None" by (simp add: sample_fs_def)
  from extract_text_missing_file [where fs = sample_fs and file_path = "''missing.pdf''"] h
  show ?thesis by simp
qed

text \<open>
  C8, as stated: every existing path whose extension is not \<open>.pdf\<close> or \<open>.docx\<close> fails
  with \<open>ValueError\<close>. The extension of \<open>REPORT.PDF\<close> is \<open>.PDF\<close>, which is neither, and
  the file is extracted.
\<close>

theorem extract_text_uppercase_extension:
  "sample_fs ''REPORT.PDF'' = Some one_page_pdf
   \<and> path_suffix ''REPORT.PDF'' \<notin> {''.pdf'', ''.docx''}
   \<and> extract_text sample_fs ''REPORT.PDF'' \<noteq> Inl ValueError"
  by (simp add: extract_text_def sample_fs_def suffix_REPORT lower_PDF extract_one_page_pdf)

text \<open>
  C8, amended: every existing path whose extension, in lower case, is neither \<open>.pdf\<close>
  nor \<open>.docx\<close> fails with \<open>ValueError\<close>.
\<close>

theorem extract_text_unsupported_format:
  "fs file_path = Some f \<Longrightarrow> str_lower (path_suffix file_path) \<notin> {''.pdf'', ''.docx''}
   \<Longrightarrow> extract_text fs file_path = Inl ValueError"
  by (simp add: extract_text_def)

theorem extract_text_unsupported_format_witness:
  "sample_fs ''notes.txt'' = Some one_page_pdf
   \<and> str_lower (path_suffix ''notes.txt'') \<notin> {''.pdf'', ''.docx''}
   \<and> extract_text sample_fs ''notes.txt'' = Inl ValueError"
proof -
  have h1: "sample_fs ''notes.txt'' = Some one_page_pdf" by (simp add: sample_fs_def)
  have h2: "str_lower (path_suffix ''notes.txt'') \<notin> {''.pdf'', ''.docx''}"
    by (simp add: suffix_notes)
  from extract_text_unsupported_format
         [where fs = sample_fs and file_path = "''notes.txt''" and f = one_page_pdf] h1 h2
  show ?thesis by blast
qed

text \<open>
  C10. For every existing path whose extension is \<open>.pdf\<close> in lower case,
  \<open>extract_text\<close> is the PDF extractor on the file, and for \<open>.docx\<close> the DOCX
  extractor.
\<close>

theorem extract_text_case_insensitive:
  "fs file_path = Some f \<Longrightarrow>
     (str_lower (path_suffix file_path) = ''.pdf''
        \<longrightarrow> extract_text fs file_path = extract_from_pdf f)
     \<and> (str_lower (path_suffix file_path) = ''.docx''
        \<longrightarrow> extract_text fs file_path = extract_from_docx f)"
  by (simp add: extract_text_def)

theorem extract_text_case_insensitive_witness:
  "sample_fs ''REPORT.PDF'' = Some one_page_pdf
   \<and> str_lower (path_suffix ''REPORT.PDF'') = ''.pdf''
   \<and> extract_text sample_fs ''REPORT.PDF'' = extract_from_pdf one_page_pdf
   \<and> sample_fs ''docs/Letter.Docx'' = Some one_paragraph_docx
   \<and> str_lower (path_suffix ''docs/Letter.Docx'') = ''.docx''
   \<and> extract_text sample_fs ''docs/Letter.Docx'' = extract_from_docx one_paragraph_docx"
proof -
  have p1: "sample_fs ''REPORT.PDF'' = Some one_page_pdf" by (simp add: sample_fs_def)
  have p2: "str_lower (path_suffix ''REPORT.PDF'') = ''.pdf''"
    by (simp add: suffix_REPORT lower_PDF)
  have d1: "sample_fs ''docs/Letter.Docx'' = Some one_paragraph_docx"
    by (simp add: sample_fs_def)
  have d2: "str_lower (path_suffix ''docs/Letter.Docx'') = ''.docx''" by (rule suffix_Letter)
  from extract_text_case_insensitive
         [where fs = sample_fs and file_path = "''REPORT.PDF''" and f = one_page_pdf]
       extract_text_case_insensitive
         [where fs = sample_fs and file_path = "''docs/Letter.Docx''" and f = one_paragraph_docx]
       p1 p2 d1 d2
  show ?thesis by blast
qed

end
